theory Spec2Isabelle
  imports Main "HOL-Library.Word"
begin

unbundle bit_operations_syntax

section \<open>The credential vault of mybench (package crypto, and its use in package main)\<close>

text \<open>
  The vault derives a 32-byte key from the master password with Argon2id, keeps a
  base64 verification hash of it, and encrypts connection secrets with AES-256-GCM.
  Go's \<^verbatim>\<open>string\<close> and \<^verbatim>\<open>[]byte\<close> are both sequences of bytes; the conversions
  \<^verbatim>\<open>[]byte(s)\<close> and \<^verbatim>\<open>string(b)\<close> copy the bytes unchanged, so both are modelled as
  lists of 8-bit words and the conversions are the identity.
\<close>

type_synonym byte = "8 word"
type_synonym gostring = "byte list"

definition bytes_of :: "string \<Rightarrow> gostring" where
  "bytes_of s = map of_char s"

text \<open>
  Every error value and every panic of the code paths below is a value of this type.
  \<open>ErrorString\<close> is what \<^verbatim>\<open>errors.New\<close> returns; \<open>CorruptInputError\<close> is the error of
  \<^verbatim>\<open>encoding/base64\<close> (the byte offset it carries is left out), \<open>KeySizeError\<close> the one
  of \<^verbatim>\<open>aes.NewCipher\<close>, \<open>EOF\<close> and \<open>ErrUnexpectedEOF\<close> those of \<^verbatim>\<open>io.ReadFull\<close>,
  \<open>StoreError\<close> any failure of the SQLite configuration store.
\<close>

datatype error =
    CorruptInputError
  | KeySizeError nat
  | EOF
  | ErrUnexpectedEOF
  | ErrorString string
  | StoreError string
  | Panic string

subsection \<open>\<^verbatim>\<open>base64.StdEncoding\<close>\<close>

definition encodeStd :: "byte list" where
  "encodeStd = bytes_of ''ABCDEFGHIJKLMNOPQRSTUVWXYZabcdefghijklmnopqrstuvwxyz0123456789+/''"

definition padChar :: byte where
  "padChar = of_char CHR ''=''"

text \<open>
  \<^verbatim>\<open>Encode\<close>: three source bytes are packed into a 24-bit value and written as four
  alphabet characters; a remainder of one or two bytes is padded with \<open>=\<close>.
\<close>

definition enc6 :: "nat \<Rightarrow> nat \<Rightarrow> byte" where
  "enc6 val k = encodeStd ! (drop_bit k val AND 0x3F)"

fun EncodeToString :: "byte list \<Rightarrow> gostring" where
  "EncodeToString (a # b # c # rest) =
     (let val = push_bit 16 (unat a) OR push_bit 8 (unat b) OR unat c
      in [enc6 val 18, enc6 val 12, enc6 val 6, enc6 val 0] @ EncodeToString rest)"
| "EncodeToString [a, b] =
     (let val = push_bit 16 (unat a) OR push_bit 8 (unat b)
      in [enc6 val 18, enc6 val 12, enc6 val 6, padChar])"
| "EncodeToString [a] =
     (let val = push_bit 16 (unat a)
      in [enc6 val 18, enc6 val 12, padChar, padChar])"
| "EncodeToString [] = []"

text \<open>
  The decode map sends an alphabet character to its index and every other byte to
  \<open>0xff\<close>.
\<close>

fun index_of :: "'a \<Rightarrow> 'a list \<Rightarrow> nat" where
  "index_of c [] = 0"
| "index_of c (x # xs) = (if x = c then 0 else Suc (index_of c xs))"

definition decodeMap :: "byte \<Rightarrow> byte" where
  "decodeMap c = (let i = index_of c encodeStd in if i < length encodeStd then of_nat i else 0xFF)"

definition is_newline :: "byte \<Rightarrow> bool" where
  "is_newline c \<longleftrightarrow> c = of_char CHR 0x0A \<or> c = of_char CHR 0x0D"

fun skip_newlines :: "byte list \<Rightarrow> byte list" where
  "skip_newlines [] = []"
| "skip_newlines (c # cs) = (if is_newline c then skip_newlines cs else c # cs)"

text \<open>
  The end of \<^verbatim>\<open>decodeQuantum\<close>: \<open>dlen\<close> six-bit values (the rest of the four-element
  buffer is zero) are packed into 24 bits and the first \<open>dlen - 1\<close> bytes are written.
  The encoding is not strict, so left-over bits are not checked.
\<close>

definition assemble :: "byte list \<Rightarrow> byte list" where
  "assemble dbuf =
     (let d = dbuf @ replicate (4 - length dbuf) 0;
          val = push_bit 18 (unat (d ! 0)) OR push_bit 12 (unat (d ! 1))
                OR push_bit 6 (unat (d ! 2)) OR unat (d ! 3)
      in take (length dbuf - 1)
           [of_nat (drop_bit 16 val), of_nat (drop_bit 8 val), of_nat val])"

text \<open>
  \<^verbatim>\<open>Decode\<close> runs \<^verbatim>\<open>decodeQuantum\<close> until the input is used up. \<open>dbuf\<close> holds the
  six-bit values of the current quantum read so far (\<open>j = length dbuf\<close>). Line feeds
  and carriage returns are skipped anywhere; padding may only close a quantum at
  \<open>j = 2\<close> (as \<open>==\<close>) or \<open>j = 3\<close> (as \<open>=\<close>), and only newlines may follow it; input that
  ends inside a quantum is corrupt, since the standard encoding is padded.
\<close>

fun decode_from :: "byte list \<Rightarrow> byte list \<Rightarrow> error + byte list" where
  "decode_from dbuf [] = (if dbuf = [] then Inr [] else Inl CorruptInputError)"
| "decode_from dbuf (c # cs) =
     (if decodeMap c \<noteq> 0xFF then
        (if length dbuf = 3 then
           (case decode_from [] cs of
              Inl e \<Rightarrow> Inl e
            | Inr out \<Rightarrow> Inr (assemble (dbuf @ [decodeMap c]) @ out))
         else decode_from (dbuf @ [decodeMap c]) cs)
      else if is_newline c then decode_from dbuf cs
      else if c \<noteq> padChar then Inl CorruptInputError
      else if length dbuf < 2 then Inl CorruptInputError
      else if length dbuf = 2 then
        (case skip_newlines cs of
           [] \<Rightarrow> Inl CorruptInputError
         | c' # cs' \<Rightarrow>
             if c' \<noteq> padChar then Inl CorruptInputError
             else if skip_newlines cs' \<noteq> [] then Inl CorruptInputError
             else Inr (assemble dbuf))
      else if skip_newlines cs \<noteq> [] then Inl CorruptInputError
      else Inr (assemble dbuf))"

definition DecodeString :: "gostring \<Rightarrow> error + byte list" where
  "DecodeString s = decode_from [] s"

subsection \<open>\<^verbatim>\<open>crypto/subtle\<close>\<close>

text \<open>
  \<^verbatim>\<open>XORBytes\<close> combines as many bytes as the shorter argument has.
  \<^verbatim>\<open>ConstantTimeByteEq(x, y)\<close> is \<^verbatim>\<open>int((uint32(x^y) - 1) >> 31)\<close>, and
  \<^verbatim>\<open>ConstantTimeCompare\<close> returns 0 for slices of different lengths and otherwise
  ORs the XOR of every pair of bytes into one byte that it compares with 0.
\<close>

definition XORBytes :: "byte list \<Rightarrow> byte list \<Rightarrow> byte list" where
  "XORBytes x y = map (\<lambda>(a, b). a XOR b) (zip x y)"

definition ConstantTimeByteEq :: "byte \<Rightarrow> byte \<Rightarrow> int" where
  "ConstantTimeByteEq x y = uint (drop_bit 31 ((ucast (x XOR y) :: 32 word) - 1))"

definition ConstantTimeCompare :: "byte list \<Rightarrow> byte list \<Rightarrow> int" where
  "ConstantTimeCompare x y =
     (if length x \<noteq> length y then 0
      else ConstantTimeByteEq (foldl (\<lambda>v (a, b). v OR (a XOR b)) 0 (zip x y)) 0)"

subsection \<open>\<^verbatim>\<open>io.ReadFull\<close> on the random source\<close>

text \<open>
  A reader is the sequence of bytes it will still deliver. \<^verbatim>\<open>io.ReadFull\<close> fills the
  whole buffer or fails: with \<open>EOF\<close> when nothing could be read, with
  \<open>ErrUnexpectedEOF\<close> when the source ran dry part of the way.
\<close>

type_synonym Reader = "byte list"

definition ReadFull :: "Reader \<Rightarrow> nat \<Rightarrow> (error + byte list) \<times> Reader" where
  "ReadFull r n =
     (if n = 0 then (Inr [], r)
      else if r = [] then (Inl EOF, r)
      else if length r < n then (Inl ErrUnexpectedEOF, [])
      else (Inr (take n r), drop n r))"

subsection \<open>\<^verbatim>\<open>crypto/aes\<close> and \<^verbatim>\<open>crypto/cipher\<close>: AES in Galois/Counter Mode\<close>

text \<open>
  A \<^verbatim>\<open>[16]byte\<close> block is a 128-bit word read big-endian (the first byte is the most
  significant). The AES block function itself belongs to \<^verbatim>\<open>crypto/aes\<close>; it enters
  every definition below as the parameter \<open>aes\<close>, a function from key and block to
  block, so that all results hold for whatever that function computes.
  \<^verbatim>\<open>aes.NewCipher\<close> accepts keys of 16, 24 and 32 bytes only.
\<close>

type_synonym block = "128 word"
type_synonym blockcipher = "byte list \<Rightarrow> block \<Rightarrow> block"

definition gcmBlockSize :: nat where "gcmBlockSize = 16"
definition gcmTagSize :: nat where "gcmTagSize = 16"
definition gcmStandardNonceSize :: nat where "gcmStandardNonceSize = 12"

definition block_of_bytes :: "byte list \<Rightarrow> block" where
  "block_of_bytes bs = foldl (\<lambda>acc b. push_bit 8 acc OR ucast b) 0 bs"

definition bytes_of_block :: "block \<Rightarrow> byte list" where
  "bytes_of_block w = map (\<lambda>i. ucast (drop_bit (8 * (15 - i)) w)) [0..<16]"

definition NewCipher :: "blockcipher \<Rightarrow> byte list \<Rightarrow> error + (block \<Rightarrow> block)" where
  "NewCipher aes k =
     (if length k = 16 \<or> length k = 24 \<or> length k = 32 then Inr (aes k)
      else Inl (KeySizeError (length k)))"

text \<open>
  The product of two blocks in the field GF(\<open>2\<^sup>1\<^sup>2\<^sup>8\<close>) of GCM (NIST SP 800-38D, 6.3):
  bit 0 of a block is its leftmost bit, and the reduction constant is
  \<open>11100001\<close> followed by 120 zero bits. Go's table-driven \<^verbatim>\<open>mul\<close> computes the
  product with the hash key \<open>H\<close>, the encryption of the zero block.
\<close>

definition gcm_mul_step :: "block \<Rightarrow> nat \<Rightarrow> block \<times> block \<Rightarrow> block \<times> block" where
  "gcm_mul_step x i zv =
     (case zv of (z, v) \<Rightarrow>
        (if bit x (127 - i) then z XOR v else z,
         if bit v 0 then drop_bit 1 v XOR push_bit 120 0xE1 else drop_bit 1 v))"

definition gcm_mul :: "block \<Rightarrow> block \<Rightarrow> block" where
  "gcm_mul x y = fst (fold (gcm_mul_step x) [0..<128] (0, y))"

text \<open>
  \<^verbatim>\<open>update\<close> folds the data into the running hash sixteen bytes at a time; a last
  partial block is padded with zero bytes on the right.
\<close>

function update :: "block \<Rightarrow> block \<Rightarrow> byte list \<Rightarrow> block" where
  "update h y data =
     (if 16 \<le> length data then
        update h (gcm_mul (y XOR block_of_bytes (take 16 data)) h) (drop 16 data)
      else if data \<noteq> [] then
        gcm_mul (y XOR block_of_bytes (data @ replicate (16 - length data) 0)) h
      else y)"
  by pat_completeness auto
termination
  by (relation "measure (\<lambda>(h, y, data). length data)") auto

declare update.simps [simp del]

text \<open>
  \<^verbatim>\<open>auth\<close>: the hash of additional data and ciphertext, then of the block holding
  their bit lengths as two 64-bit big-endian numbers, XORed with the tag mask.
\<close>

definition auth :: "(block \<Rightarrow> block) \<Rightarrow> byte list \<Rightarrow> byte list \<Rightarrow> block \<Rightarrow> byte list" where
  "auth enc ciphertext additionalData tagMask =
     (let h = enc 0;
          y = update h (update h 0 additionalData) ciphertext;
          lens = push_bit 64 (ucast (of_nat (length additionalData * 8) :: 64 word))
                 OR ucast (of_nat (length ciphertext * 8) :: 64 word);
          y' = gcm_mul (y XOR lens) h
      in XORBytes (bytes_of_block y') (bytes_of_block tagMask))"

text \<open>
  \<^verbatim>\<open>deriveCounter\<close> for a nonce of the standard size (the only size \<^verbatim>\<open>Seal\<close> and
  \<^verbatim>\<open>Open\<close> let through): the nonce followed by the 32-bit counter 1.
  \<^verbatim>\<open>gcmInc32\<close> adds one to the last four bytes, wrapping within them.
\<close>

definition deriveCounter :: "byte list \<Rightarrow> block" where
  "deriveCounter nonce = block_of_bytes (nonce @ [0, 0, 0, 1])"

definition gcmInc32 :: "block \<Rightarrow> block" where
  "gcmInc32 c = (c AND NOT 0xFFFFFFFF) OR ((c + 1) AND 0xFFFFFFFF)"

function counterCrypt :: "(block \<Rightarrow> block) \<Rightarrow> byte list \<Rightarrow> block \<Rightarrow> byte list" where
  "counterCrypt enc inp counter =
     (if gcmBlockSize \<le> length inp then
        XORBytes (take gcmBlockSize inp) (bytes_of_block (enc counter))
          @ counterCrypt enc (drop gcmBlockSize inp) (gcmInc32 counter)
      else if inp \<noteq> [] then XORBytes inp (bytes_of_block (enc counter))
      else [])"
  by pat_completeness auto
termination
  by (relation "measure (\<lambda>(enc, inp, counter). length inp)") (auto simp: gcmBlockSize_def)

declare counterCrypt.simps [simp del]

text \<open>
  \<^verbatim>\<open>Seal\<close> appends ciphertext and tag to \<open>dst\<close>; \<^verbatim>\<open>Open\<close> checks the tag before it
  decrypts. Both panic on a nonce of the wrong length, \<^verbatim>\<open>Seal\<close> also on a message
  longer than \<open>(2\<^sup>3\<^sup>2 - 2) * 16\<close> bytes. \<^verbatim>\<open>Open\<close> returns the one error
  \<^verbatim>\<open>errOpen\<close> when the input is shorter than a tag, too long, or its tag is wrong.
\<close>

definition errOpen :: error where
  "errOpen = ErrorString ''cipher: message authentication failed''"

definition gcmMaxPlaintext :: nat where
  "gcmMaxPlaintext = (2 ^ 32 - 2) * gcmBlockSize"

definition Seal ::
  "(block \<Rightarrow> block) \<Rightarrow> byte list \<Rightarrow> byte list \<Rightarrow> byte list \<Rightarrow> byte list \<Rightarrow> error + byte list" where
  "Seal enc dst nonce plaintext data =
     (if length nonce \<noteq> gcmStandardNonceSize then
        Inl (Panic ''crypto/cipher: incorrect nonce length given to GCM'')
      else if gcmMaxPlaintext < length plaintext then
        Inl (Panic ''crypto/cipher: message too large for GCM'')
      else
        (let counter = deriveCounter nonce;
             tagMask = enc counter;
             out = counterCrypt enc plaintext (gcmInc32 counter);
             tag = auth enc out data tagMask
         in Inr (dst @ out @ tag)))"

definition Open ::
  "(block \<Rightarrow> block) \<Rightarrow> byte list \<Rightarrow> byte list \<Rightarrow> byte list \<Rightarrow> byte list \<Rightarrow> error + byte list" where
  "Open enc dst nonce ciphertext data =
     (if length nonce \<noteq> gcmStandardNonceSize then
        Inl (Panic ''crypto/cipher: incorrect nonce length given to GCM'')
      else if length ciphertext < gcmTagSize then Inl errOpen
      else if gcmMaxPlaintext + gcmTagSize < length ciphertext then Inl errOpen
      else
        (let tag = drop (length ciphertext - gcmTagSize) ciphertext;
             ct = take (length ciphertext - gcmTagSize) ciphertext;
             counter = deriveCounter nonce;
             tagMask = enc counter;
             expectedTag = auth enc ct data tagMask
         in if ConstantTimeCompare expectedTag tag \<noteq> 1 then Inl errOpen
            else Inr (dst @ counterCrypt enc ct (gcmInc32 counter))))"

subsection \<open>Package crypto: the vault\<close>

text \<open>
  \<^verbatim>\<open>argon2.IDKey(password, salt, time, memory, threads, keyLen)\<close> belongs to
  \<^verbatim>\<open>golang.org/x/crypto\<close>; it is the parameter \<open>idkey\<close> of the functions that call it.
\<close>

type_synonym kdf = "byte list \<Rightarrow> byte list \<Rightarrow> nat \<Rightarrow> nat \<Rightarrow> nat \<Rightarrow> nat \<Rightarrow> byte list"

definition saltLen :: nat where "saltLen = 16"
definition keyLen :: nat where "keyLen = 32"
definition argonTime :: nat where "argonTime = 1"
definition argonMem :: nat where "argonMem = 64 * 1024"
definition argonParts :: nat where "argonParts = 4"

record Vault =
  key :: "byte list"

definition NewVault :: "kdf \<Rightarrow> gostring \<Rightarrow> byte list \<Rightarrow> Vault" where
  "NewVault idkey password salt =
     \<lparr>key = idkey password salt argonTime argonMem argonParts keyLen\<rparr>"

definition GenerateSalt :: "Reader \<Rightarrow> (error + byte list) \<times> Reader" where
  "GenerateSalt r = ReadFull r saltLen"

definition HashPassword :: "kdf \<Rightarrow> gostring \<Rightarrow> byte list \<Rightarrow> gostring" where
  "HashPassword idkey password salt =
     (let hash = idkey password salt argonTime argonMem argonParts keyLen
      in EncodeToString hash)"

definition VerifyPassword :: "kdf \<Rightarrow> gostring \<Rightarrow> byte list \<Rightarrow> gostring \<Rightarrow> bool" where
  "VerifyPassword idkey password salt storedHash =
     (let hash = idkey password salt argonTime argonMem argonParts keyLen
      in case DecodeString storedHash of
           Inl err \<Rightarrow> False
         | Inr decoded \<Rightarrow> ConstantTimeCompare hash decoded = 1)"

text \<open>
  \<^verbatim>\<open>Encrypt\<close> reads its nonce from the random source, so it takes the reader and
  returns what is left of it. \<^verbatim>\<open>cipher.NewGCM\<close> fails only for a block size other
  than 16, which the block type rules out, so its error branch is not reachable.
  The nonce passed as \<open>dst\<close> to \<^verbatim>\<open>Seal\<close> has no spare capacity, so the sealed message
  is built in a fresh buffer.
\<close>

definition NonceSize :: nat where
  "NonceSize = gcmStandardNonceSize"

definition Encrypt ::
  "blockcipher \<Rightarrow> Vault \<Rightarrow> gostring \<Rightarrow> Reader \<Rightarrow> (error + gostring) \<times> Reader" where
  "Encrypt aes v plaintext rand =
     (if length plaintext = 0 then (Inr [], rand)
      else case NewCipher aes (key v) of
        Inl err \<Rightarrow> (Inl err, rand)
      | Inr blk \<Rightarrow>
          (case ReadFull rand NonceSize of
             (Inl err, rand') \<Rightarrow> (Inl err, rand')
           | (Inr nonce, rand') \<Rightarrow>
               (case Seal blk nonce nonce plaintext [] of
                  Inl err \<Rightarrow> (Inl err, rand')
                | Inr ciphertext \<Rightarrow> (Inr (EncodeToString ciphertext), rand'))))"

text \<open>
  \<^verbatim>\<open>Decrypt\<close> replaces whatever error \<^verbatim>\<open>Open\<close> returns by its own; a panic is not
  an error value and passes through.
\<close>

definition errTooShort :: error where
  "errTooShort = ErrorString ''ciphertext too short''"

definition errDecryptionFailed :: error where
  "errDecryptionFailed =
     ErrorString ''decryption failed: wrong master password or corrupted data''"

definition Decrypt :: "blockcipher \<Rightarrow> Vault \<Rightarrow> gostring \<Rightarrow> error + gostring" where
  "Decrypt aes v encoded =
     (if length encoded = 0 then Inr []
      else case DecodeString encoded of
        Inl err \<Rightarrow> Inl err
      | Inr data \<Rightarrow>
          (case NewCipher aes (key v) of
             Inl err \<Rightarrow> Inl err
           | Inr blk \<Rightarrow>
               if length data < NonceSize then Inl errTooShort
               else
                 (let nonce = take NonceSize data;
                      ciphertext = drop NonceSize data
                  in case Open blk [] nonce ciphertext [] of
                       Inl (Panic msg) \<Rightarrow> Inl (Panic msg)
                     | Inl err \<Rightarrow> Inl errDecryptionFailed
                     | Inr plaintext \<Rightarrow> Inr plaintext)))"

subsection \<open>Package store: the configuration table\<close>

text \<open>
  \<^verbatim>\<open>GetConfig\<close> runs one query and scans one column. The store is modelled by the
  outcome of that scan for each key: a value, \<^verbatim>\<open>sql.ErrNoRows\<close>, or another error of
  the database. A missing row reads as the empty string.
\<close>

datatype scan = Value gostring | ErrNoRows | ScanError error

record Store =
  app_config :: "string \<Rightarrow> scan"

definition GetConfig :: "Store \<Rightarrow> string \<Rightarrow> error + gostring" where
  "GetConfig s k =
     (case app_config s k of
        ErrNoRows \<Rightarrow> Inr []
      | ScanError err \<Rightarrow> Inl err
      | Value val \<Rightarrow> Inr val)"

subsection \<open>Package main: unlocking the vault\<close>

text \<open>
  Of the \<^verbatim>\<open>App\<close> struct only the two pointers that \<^verbatim>\<open>UnlockVault\<close> touches are kept;
  a nil pointer is \<open>None\<close>. The store is nil when \<^verbatim>\<open>startup\<close> could not open it, and
  calling \<^verbatim>\<open>GetConfig\<close> on it panics. \<^verbatim>\<open>UnlockVault\<close> returns \<^verbatim>\<open>(false, err)\<close> on
  an error, modelled as \<open>Inl err\<close>, and \<^verbatim>\<open>(ok, nil)\<close> otherwise, modelled as \<open>Inr ok\<close>.
\<close>

record App =
  store :: "Store option"
  vault :: "Vault option"

definition nilDereference :: error where
  "nilDereference = Panic ''runtime error: invalid memory address or nil pointer dereference''"

definition UnlockVault :: "kdf \<Rightarrow> App \<Rightarrow> gostring \<Rightarrow> (error + bool) \<times> App" where
  "UnlockVault idkey a password =
     (case store a of
        None \<Rightarrow> (Inl nilDereference, a)
      | Some s \<Rightarrow>
          (case GetConfig s ''master_salt'' of
             Inl err \<Rightarrow> (Inl err, a)
           | Inr saltB64 \<Rightarrow>
               (case DecodeString saltB64 of
                  Inl err \<Rightarrow> (Inl err, a)
                | Inr salt \<Rightarrow>
                    (case GetConfig s ''master_hash'' of
                       Inl err \<Rightarrow> (Inl err, a)
                     | Inr hash \<Rightarrow>
                         if \<not> VerifyPassword idkey password salt hash then (Inr False, a)
                         else (Inr True, a\<lparr>vault := Some (NewVault idkey password salt)\<rparr>)))))"

definition IsUnlocked :: "App \<Rightarrow> bool" where
  "IsUnlocked a \<longleftrightarrow> vault a \<noteq> None"

subsection \<open>Notions used in the statements\<close>

text \<open>
  What \<^verbatim>\<open>Seal\<close> appends to \<open>dst\<close>: the ciphertext followed by its tag.
\<close>

definition sealed_body ::
  "(block \<Rightarrow> block) \<Rightarrow> byte list \<Rightarrow> byte list \<Rightarrow> byte list \<Rightarrow> byte list" where
  "sealed_body enc nonce plaintext ad =
     (let ct = counterCrypt enc plaintext (gcmInc32 (deriveCounter nonce))
      in ct @ auth enc ct ad (enc (deriveCounter nonce)))"

text \<open>
  The two error kinds of the specification, in terms of the error values that
  \<^verbatim>\<open>Decrypt\<close> returns: a malformed blob is a base64 error or the error
  ``ciphertext too short''; a failed decryption is the error ``decryption failed: wrong
  master password or corrupted data''.
\<close>

definition MalformedBlob :: "error \<Rightarrow> bool" where
  "MalformedBlob e \<longleftrightarrow> e = CorruptInputError \<or> e = errTooShort"

definition DecryptionFailed :: "error \<Rightarrow> bool" where
  "DecryptionFailed e \<longleftrightarrow> e = errDecryptionFailed"

text \<open>
  Two concrete functions of the types of the library parameters, for closed
  instances of the theorems: a key derivation that pads password and salt with zero
  bytes to the requested length, and a block function that XORs the first sixteen
  key bytes into the block.
\<close>

definition pad_kdf :: kdf where
  "pad_kdf p s t m l n = take n (p @ s @ replicate n 0)"

definition xor_cipher :: blockcipher where
  "xor_cipher k b = b XOR block_of_bytes (take 16 k)"

text \<open>
  A configuration store that holds the salt of sixteen zero bytes and the hash that
  \<open>pad_kdf\<close> gives for the password ``correct horse''.
\<close>

definition sample_store :: Store where
  "sample_store =
     \<lparr>app_config = (\<lambda>k.
        if k = ''master_salt'' then Value (EncodeToString (replicate 16 0))
        else if k = ''master_hash'' then
          Value (HashPassword pad_kdf (bytes_of ''correct horse'') (replicate 16 0))
        else ErrNoRows)\<rparr>"

section \<open>Properties of the base64 codec\<close>

lemma length_encodeStd: "length encodeStd = 64"
  by (simp add: encodeStd_def bytes_of_def)

lemma distinct_encodeStd: "distinct encodeStd"
  by (simp add: encodeStd_def bytes_of_def)

lemma index_of_nth: "distinct xs \<Longrightarrow> i < length xs \<Longrightarrow> index_of (xs ! i) xs = i"
proof (induction xs arbitrary: i)
  case Nil
  then show ?case by simp
next
  case (Cons x xs)
  then show ?case by (cases i) auto
qed

lemma decodeMap_encodeStd: "i < 64 \<Longrightarrow> decodeMap (encodeStd ! i) = of_nat i"
  by (simp add: decodeMap_def index_of_nth distinct_encodeStd length_encodeStd)

lemma sextet_AND: "(n::nat) AND 0x3F = n mod 64"
proof -
  have "n AND mask 6 = take_bit 6 n" by (simp add: take_bit_eq_mask) 
  then show ?thesis by (simp add: mask_eq_exp_minus_1 take_bit_eq_mod)
qed

lemma decodeMap_enc6: "decodeMap (enc6 val k) = of_nat ((val div 2 ^ k) mod 64)"
  by (simp add: enc6_def decodeMap_encodeStd sextet_AND drop_bit_eq_div)

lemma unat_sextet: "unat (of_nat (n mod 64) :: byte) = n mod 64"
proof -
  have "n mod 64 < 256" by (rule less_trans [of _ 64]) simp_all
  then show ?thesis by (simp add: unat_of_nat)
qed

lemma decodeMap_enc6_ne: "decodeMap (enc6 val k) \<noteq> 0xFF"
proof
  assume "decodeMap (enc6 val k) = 0xFF"
  then have "unat (of_nat ((val div 2 ^ k) mod 64) :: byte) = unat (0xFF :: byte)"
    by (simp add: decodeMap_enc6)
  then have "(val div 2 ^ k) mod 64 = 255" by (simp only: unat_sextet) simp
  moreover have "(val div 2 ^ k) mod 64 < 64" by simp
  ultimately show False by simp
qed

lemma or_push: "b < 2 ^ n \<Longrightarrow> push_bit n (a::nat) OR b = a * 2 ^ n + b"
proof -
  assume b: "b < 2 ^ n"
  have "push_bit n a AND b = 0"
  proof (rule bit_eqI)
    fix i
    show "bit (push_bit n a AND b) i = bit (0::nat) i"
    proof (cases "i < n")
      case True then show ?thesis by (simp add: bit_simps)
    next
      case False
      then have "(2::nat) ^ n \<le> 2 ^ i" by (simp add: power_increasing)
      with b have "b < 2 ^ i" by (rule less_le_trans)
      then have "\<not> bit b i" by (simp add: bit_iff_odd)
      then show ?thesis by (simp add: bit_simps)
    qed
  qed
  then have "push_bit n a + b = push_bit n a OR b" by (rule disjunctive_add_eq_or)
  then show ?thesis by (simp add: push_bit_eq_mult)
qed

lemma recombine:
  fixes s0 s1 s2 s3 :: nat
  assumes "s1 < 64" "s2 < 64" "s3 < 64"
  shows "push_bit 18 s0 OR push_bit 12 s1 OR push_bit 6 s2 OR s3
         = s0 * 262144 + s1 * 4096 + s2 * 64 + s3"
proof -
  have a: "push_bit 6 s2 OR s3 = s2 * 64 + s3"
    using assms or_push [of s3 6 s2] by simp
  have b: "push_bit 12 s1 OR (s2 * 64 + s3) = s1 * 4096 + (s2 * 64 + s3)"
    using assms or_push [of "s2 * 64 + s3" 12 s1] by simp
  have c: "push_bit 18 s0 OR (s1 * 4096 + (s2 * 64 + s3)) = s0 * 262144 + (s1 * 4096 + (s2 * 64 + s3))"
    using assms or_push [of "s1 * 4096 + (s2 * 64 + s3)" 18 s0] by simp
  show ?thesis by (simp add: a b c)
qed

lemma unat_byte_lt: "unat (a::byte) < 256"
  using unsigned_less [of a, where ?'a = nat] by simp

lemma pack3:
  fixes a b c :: byte
  shows "push_bit 16 (unat a) OR push_bit 8 (unat b) OR unat c
         = unat a * 65536 + unat b * 256 + unat c"
proof -
  have x: "push_bit 8 (unat b) OR unat c = unat b * 256 + unat c"
    using or_push [of "unat c" 8 "unat b"] unat_byte_lt [of c] by simp
  have "unat b * 256 + unat c < 2 ^ 16"
    using unat_byte_lt [of b] unat_byte_lt [of c] by simp
  then have "push_bit 16 (unat a) OR (unat b * 256 + unat c)
             = unat a * 2 ^ 16 + (unat b * 256 + unat c)"
    by (rule or_push)
  then show ?thesis by (simp add: x)
qed

lemma pack2:
  fixes a b :: byte
  shows "push_bit 16 (unat a) OR push_bit 8 (unat b) = unat a * 65536 + unat b * 256"
proof -
  have "push_bit 8 (unat b) < 2 ^ 16"
    using unat_byte_lt [of b] by (simp add: push_bit_eq_mult)
  then have "push_bit 16 (unat a) OR push_bit 8 (unat b)
             = unat a * 2 ^ 16 + push_bit 8 (unat b)"
    by (rule or_push)
  then show ?thesis by (simp add: push_bit_eq_mult)
qed

lemma of_nat_byte_eq: "n mod 256 = unat (b::byte) \<Longrightarrow> of_nat n = b"
proof -
  assume h: "n mod 256 = unat b"
  have "(of_nat n :: byte) = of_nat (n mod 256)"
    by (simp add: word_of_nat_eq_iff take_bit_eq_mod)
  then show ?thesis by (simp add: h)
qed

lemma sextets_sum:
  "(v::nat) < 16777216 \<Longrightarrow>
   (v div 262144 mod 64) * 262144 + (v div 4096 mod 64) * 4096 + (v div 64 mod 64) * 64 + v mod 64 = v"
proof -
  assume v: "v < 16777216"
  define q1 where "q1 = v div 64"
  define q2 where "q2 = q1 div 64"
  define q3 where "q3 = q2 div 64"
  have e1: "v = q1 * 64 + v mod 64" by (simp add: q1_def)
  have e2: "q1 = q2 * 64 + q1 mod 64" by (simp add: q2_def)
  have e3: "q2 = q3 * 64 + q2 mod 64" by (simp add: q3_def)
  have d2: "v div 4096 = q2" by (simp add: q2_def q1_def div_mult2_eq)
  have d3: "v div 262144 = q3" by (simp add: q3_def q2_def q1_def div_mult2_eq)
  have "q3 < 64" using v by (simp add: d3 [symmetric])
  then have m3: "q3 mod 64 = q3" by simp
  have "q3 * 262144 + (q2 mod 64) * 4096 + (q1 mod 64) * 64 + v mod 64 = v"
    using e1 e2 e3 by linarith
  then show ?thesis by (simp add: d2 d3 m3 q1_def [symmetric])
qed


lemma sextet_ne_FF: "(of_nat (n mod 64) :: byte) \<noteq> 0xFF"
proof
  assume "(of_nat (n mod 64) :: byte) = 0xFF"
  then have "unat (of_nat (n mod 64) :: byte) = unat (0xFF :: byte)" by simp
  then have "n mod 64 = 255" by (simp only: unat_sextet) simp
  moreover have "n mod 64 < 64" by simp
  ultimately show False by simp
qed

lemma unat_of_nat_sextet: "s < 64 \<Longrightarrow> unat (of_nat s :: byte) = s"
  by (simp add: unat_of_nat)

lemma assemble_sextets4:
  assumes "s0 < 64" "s1 < 64" "s2 < 64" "s3 < 64"
  shows "assemble [of_nat s0, of_nat s1, of_nat s2, of_nat s3]
         = [of_nat ((s0 * 262144 + s1 * 4096 + s2 * 64 + s3) div 65536),
            of_nat ((s0 * 262144 + s1 * 4096 + s2 * 64 + s3) div 256),
            of_nat (s0 * 262144 + s1 * 4096 + s2 * 64 + s3)]"
proof -
  have "push_bit 18 (unat (of_nat s0 :: byte)) OR push_bit 12 (unat (of_nat s1 :: byte))
        OR push_bit 6 (unat (of_nat s2 :: byte)) OR unat (of_nat s3 :: byte)
        = s0 * 262144 + s1 * 4096 + s2 * 64 + s3"
    using assms by (simp only: unat_of_nat_sextet recombine)
  then show ?thesis
    by (simp add: assemble_def Let_def drop_bit_eq_div del: of_nat_add of_nat_mult)
qed

lemma assemble_sextets3:
  assumes "s0 < 64" "s1 < 64" "s2 < 64"
  shows "assemble [of_nat s0, of_nat s1, of_nat s2]
         = [of_nat ((s0 * 262144 + s1 * 4096 + s2 * 64) div 65536),
            of_nat ((s0 * 262144 + s1 * 4096 + s2 * 64) div 256)]"
proof -
  have "push_bit 18 (unat (of_nat s0 :: byte)) OR push_bit 12 (unat (of_nat s1 :: byte))
        OR push_bit 6 (unat (of_nat s2 :: byte)) OR unat (0 :: byte)
        = s0 * 262144 + s1 * 4096 + s2 * 64"
    using assms recombine [of s1 s2 0 s0] by (simp only: unat_of_nat_sextet) simp
  then show ?thesis
    by (simp add: assemble_def Let_def drop_bit_eq_div del: of_nat_add of_nat_mult)
qed

lemma assemble_sextets2:
  assumes "s0 < 64" "s1 < 64"
  shows "assemble [of_nat s0, of_nat s1]
         = [of_nat ((s0 * 262144 + s1 * 4096) div 65536)]"
proof -
  have "push_bit 18 (unat (of_nat s0 :: byte)) OR push_bit 12 (unat (of_nat s1 :: byte))
        OR push_bit 6 (unat (0 :: byte)) OR unat (0 :: byte)
        = s0 * 262144 + s1 * 4096"
    using assms recombine [of s1 0 0 s0] by (simp only: unat_of_nat_sextet) simp
  moreover have "replicate 2 (0::byte) = [0, 0]"
    by (simp add: numeral_2_eq_2)
  ultimately show ?thesis
    by (simp add: assemble_def Let_def drop_bit_eq_div del: of_nat_add of_nat_mult)
qed

lemma split3a:
  fixes A B C :: nat
  assumes "B < 256" "C < 256"
  shows "(A * 65536 + B * 256 + C) div 65536 = A"
  using assms by simp

lemma split3b:
  fixes A B C :: nat
  assumes "B < 256" "C < 256"
  shows "(A * 65536 + B * 256 + C) div 256 mod 256 = B"
proof -
  have "(A * 65536 + B * 256 + C) div 256 = A * 256 + B" using assms by simp
  then show ?thesis using assms by simp
qed

lemma split3c:
  fixes A B C :: nat
  assumes "C < 256"
  shows "(A * 65536 + B * 256 + C) mod 256 = C"
proof -
  have "A * 65536 + B * 256 + C = (A * 256 + B) * 256 + C" by simp
  then have "(A * 65536 + B * 256 + C) mod 256 = C mod 256" by (simp only: mod_mult_self3)
  then show ?thesis using assms by simp
qed

lemma unpack3:
  fixes a b c :: byte
  defines "v \<equiv> unat a * 65536 + unat b * 256 + unat c"
  shows "(of_nat (v div 65536) :: byte) = a" "(of_nat (v div 256) :: byte) = b"
        "(of_nat v :: byte) = c" "v < 16777216"
proof -
  note lt = unat_byte_lt [of a] unat_byte_lt [of b] unat_byte_lt [of c]
  have "v div 65536 = unat a" unfolding v_def using lt by (intro split3a)
  then show "(of_nat (v div 65536) :: byte) = a" by simp
  have "v div 256 mod 256 = unat b" unfolding v_def using lt by (intro split3b)
  then show "(of_nat (v div 256) :: byte) = b" by (rule of_nat_byte_eq)
  have "v mod 256 = unat c" unfolding v_def using lt by (intro split3c)
  then show "(of_nat v :: byte) = c" by (rule of_nat_byte_eq)
  show "v < 16777216" unfolding v_def using lt by simp
qed

lemma decode_sextets:
  assumes "v < 16777216"
  shows "assemble [decodeMap (enc6 v 18), decodeMap (enc6 v 12),
                   decodeMap (enc6 v 6), decodeMap (enc6 v 0)]
         = [of_nat (v div 65536), of_nat (v div 256), of_nat v]"
    and "v mod 64 = 0 \<Longrightarrow>
         assemble [decodeMap (enc6 v 18), decodeMap (enc6 v 12), decodeMap (enc6 v 6)]
         = [of_nat (v div 65536), of_nat (v div 256)]"
    and "v mod 4096 = 0 \<Longrightarrow>
         assemble [decodeMap (enc6 v 18), decodeMap (enc6 v 12)] = [of_nat (v div 65536)]"
proof -
  define s0 where "s0 = v div 262144 mod 64"
  define s1 where "s1 = v div 4096 mod 64"
  define s2 where "s2 = v div 64 mod 64"
  define s3 where "s3 = v mod 64"
  have lt: "s0 < 64" "s1 < 64" "s2 < 64" "s3 < 64"
    by (simp_all add: s0_def s1_def s2_def s3_def)
  have sum: "s0 * 262144 + s1 * 4096 + s2 * 64 + s3 = v"
    unfolding s0_def s1_def s2_def s3_def using assms by (rule sextets_sum)
  have dm: "decodeMap (enc6 v 18) = of_nat s0" "decodeMap (enc6 v 12) = of_nat s1"
           "decodeMap (enc6 v 6) = of_nat s2" "decodeMap (enc6 v 0) = of_nat s3"
    by (simp_all add: decodeMap_enc6 s0_def s1_def s2_def s3_def)
  show "assemble [decodeMap (enc6 v 18), decodeMap (enc6 v 12),
                   decodeMap (enc6 v 6), decodeMap (enc6 v 0)]
         = [of_nat (v div 65536), of_nat (v div 256), of_nat v]"
    unfolding dm using assemble_sextets4 [OF lt] by (simp only: sum)
  {
    assume z: "v mod 64 = 0"
    from sum have "s0 * 262144 + s1 * 4096 + s2 * 64 = v"
      by (simp add: s3_def z)
    then show "assemble [decodeMap (enc6 v 18), decodeMap (enc6 v 12), decodeMap (enc6 v 6)]
         = [of_nat (v div 65536), of_nat (v div 256)]"
      unfolding dm using assemble_sextets3 [OF lt(1,2,3)] by simp
  }
  {
    assume z: "v mod 4096 = 0"
    have "v mod 64 = (v mod 4096) mod 64" by (simp add: mod_mod_cancel)
    then have z0: "s3 = 0" by (simp add: z s3_def)
    have "v div 64 mod 64 = (v mod 4096) div 64"
      using mod_mult2_eq [of v 64 64] by simp
    then have z1: "s2 = 0" by (simp add: z s2_def)
    from sum have "s0 * 262144 + s1 * 4096 = v"
      by (simp add: z0 z1)
    then show "assemble [decodeMap (enc6 v 18), decodeMap (enc6 v 12)] = [of_nat (v div 65536)]"
      unfolding dm using assemble_sextets2 [OF lt(1,2)] by simp
  }
qed

lemma decode_quantum3:
  fixes a b c :: byte
  defines "val \<equiv> push_bit 16 (unat a) OR push_bit 8 (unat b) OR unat c"
  shows "assemble [decodeMap (enc6 val 18), decodeMap (enc6 val 12),
                   decodeMap (enc6 val 6), decodeMap (enc6 val 0)] = [a, b, c]"
  unfolding val_def pack3 using unpack3 [of a b c] by (simp add: decode_sextets(1))

lemma decode_quantum2:
  fixes a b :: byte
  defines "val \<equiv> push_bit 16 (unat a) OR push_bit 8 (unat b)"
  shows "assemble [decodeMap (enc6 val 18), decodeMap (enc6 val 12),
                   decodeMap (enc6 val 6)] = [a, b]"
proof -
  have v: "val = unat a * 65536 + unat b * 256 + unat (0::byte)"
    by (simp add: val_def pack2)
  have "val mod 64 = 0" by (simp add: v)
  then show ?thesis
    using unpack3 [of a b 0] decode_sextets(2) [of val] by (simp add: v)
qed

lemma decode_quantum1:
  fixes a :: byte
  defines "val \<equiv> push_bit 16 (unat a)"
  shows "assemble [decodeMap (enc6 val 18), decodeMap (enc6 val 12)] = [a]"
proof -
  have v: "val = unat a * 65536 + unat (0::byte) * 256 + unat (0::byte)"
    by (simp add: val_def push_bit_eq_mult)
  have "val mod 4096 = 0" by (simp add: v)
  then show ?thesis
    using unpack3 [of a 0 0] decode_sextets(3) [of val] by (simp add: v)
qed


lemma decodeMap_padChar: "decodeMap padChar = 0xFF"
  by (simp add: decodeMap_def padChar_def encodeStd_def bytes_of_def)

lemma padChar_not_newline: "\<not> is_newline padChar"
  by (simp add: is_newline_def padChar_def)

lemma decode_EncodeToString: "decode_from [] (EncodeToString bs) = Inr bs"
proof (induction bs rule: EncodeToString.induct)
  case (1 a b c rest)
  then show ?case
    by (simp add: Let_def decodeMap_enc6_ne decode_quantum3)
next
  case (2 a b)
  show ?case
    by (simp add: Let_def decodeMap_enc6_ne decodeMap_padChar padChar_not_newline decode_quantum2)
next
  case (3 a)
  show ?case
    by (simp add: Let_def decodeMap_enc6_ne decodeMap_padChar padChar_not_newline decode_quantum1)
next
  case 4
  show ?case by simp
qed

lemma DecodeString_EncodeToString: "DecodeString (EncodeToString bs) = Inr bs"
  by (simp add: DecodeString_def decode_EncodeToString)

lemma EncodeToString_eq_Nil: "EncodeToString bs = [] \<longleftrightarrow> bs = []"
  by (induction bs rule: EncodeToString.induct) (simp_all add: Let_def)

text \<open>
  Two values computed by the model, as the \<^verbatim>\<open>base64\<close> tool gives them; the decoder skips
  line feeds.
\<close>

lemma EncodeToString_example:
  "EncodeToString (bytes_of ''db-secret-123'') = bytes_of ''ZGItc2VjcmV0LTEyMw==''"
  by (simp add: bytes_of_def encodeStd_def enc6_def padChar_def)

lemma DecodeString_newlines:
  "DecodeString (bytes_of ''ZGIt\<newline>c2VjcmV0LTEyMw==\<newline>'') = Inr (bytes_of ''db-secret-123'')"
  by (simp add: DecodeString_def bytes_of_def encodeStd_def decodeMap_def assemble_def
        padChar_def is_newline_def)


section \<open>Properties of the byte operations\<close>

lemma length_XORBytes: "length (XORBytes x y) = min (length x) (length y)"
  by (simp add: XORBytes_def)

lemma length_bytes_of_block: "length (bytes_of_block w) = 16"
  by (simp add: bytes_of_block_def)

lemma XORBytes_twice: "length x \<le> length m \<Longrightarrow> XORBytes (XORBytes x m) m = x"
proof (induction x arbitrary: m)
  case Nil
  then show ?case by (simp add: XORBytes_def)
next
  case (Cons a x)
  then obtain b m' where m: "m = b # m'" by (cases m) auto
  have "(a XOR b) XOR b = a" by (simp add: xor.assoc)
  with Cons m show ?case by (simp add: XORBytes_def)
qed

lemma XORBytes_take: "XORBytes x m = XORBytes x (take (length x) m)"
proof (induction x arbitrary: m)
  case Nil
  then show ?case by (simp add: XORBytes_def)
next
  case (Cons a x)
  then show ?case by (cases m) (simp_all add: XORBytes_def)
qed

lemma ConstantTimeByteEq_iff: "ConstantTimeByteEq x y = (if x = y then 1 else 0)"
proof (cases "x = y")
  case True
  have "drop_bit 31 (- 1 :: 32 word) = 1" by simp
  then show ?thesis using True by (simp add: ConstantTimeByteEq_def)
next
  case False
  define z where "z = x XOR y"
  define w :: "32 word" where "w = ucast z"
  have z: "z \<noteq> 0"
  proof
    assume "z = 0"
    then have "x XOR (x XOR y) = x" by (simp add: z_def)
    then show False using False by (simp add: xor.assoc [symmetric])
  qed
  have zlt: "unat z < 256" using unsigned_less [of z, where ?'a = nat] by simp
  then have "unat z mod 4294967296 = unat z" by simp
  then have uw: "unat w = unat z"
    by (simp add: w_def unsigned_ucast_eq take_bit_eq_mod)
  have "unat z \<noteq> 0" using z by (simp add: unsigned_eq_0_iff)
  then have "w \<noteq> 0" using uw by auto
  then have "unat (w - 1) = unat w - 1" by (rule unat_minus_one)
  with zlt have "unat (w - 1) < 2 ^ 31" using uw by simp
  then have "unat (drop_bit 31 (w - 1)) = 0" by (simp only: unat_drop_bit_eq) (simp add: drop_bit_eq_div)
  then have "drop_bit 31 (w - 1) = 0" by (simp only: unsigned_eq_0_iff)
  then show ?thesis using False by (simp add: ConstantTimeByteEq_def z_def w_def)
qed

lemma fold_or_zero:
  "foldl (\<lambda>v (a, b). v OR (a XOR b)) v0 (zip x y) = (0::byte) \<Longrightarrow> length x = length y
   \<Longrightarrow> v0 = 0 \<and> x = y"
proof (induction x arbitrary: y v0)
  case Nil
  then show ?case by simp
next
  case (Cons a x)
  then obtain b y' where y: "y = b # y'" by (cases y) auto
  from Cons.prems have "foldl (\<lambda>v (a, b). v OR (a XOR b)) (v0 OR (a XOR b)) (zip x y') = 0"
    by (simp add: y)
  with Cons.IH [of "v0 OR (a XOR b)" y'] Cons.prems
  have h: "v0 OR (a XOR b) = 0" "x = y'" by (simp_all add: y)
  from h(1) have "v0 = 0" "a XOR b = 0" by (simp_all add: or_eq_0_iff)
  then have "a XOR (a XOR b) = a" by simp
  then have "a = b" by (simp add: xor.assoc [symmetric])
  with h \<open>v0 = 0\<close> y show ?case by simp
qed

lemma fold_or_self: "foldl (\<lambda>v (a, b). v OR (a XOR b)) (0::byte) (zip x x) = 0"
  by (induction x) simp_all

lemma ConstantTimeCompare_iff: "ConstantTimeCompare x y = 1 \<longleftrightarrow> x = y"
proof
  assume "ConstantTimeCompare x y = 1"
  then have "length x = length y" "foldl (\<lambda>v (a, b). v OR (a XOR b)) 0 (zip x y) = (0::byte)"
    by (simp_all add: ConstantTimeCompare_def ConstantTimeByteEq_iff split: if_splits)
  then show "x = y" using fold_or_zero [of 0 x y] by simp
next
  assume "x = y"
  then show "ConstantTimeCompare x y = 1"
    by (simp add: ConstantTimeCompare_def ConstantTimeByteEq_iff fold_or_self)
qed

section \<open>Properties of counter mode and of the authenticated cipher\<close>

text \<open>
  The field product on the first multiplication of test case 2 of the GCM
  specification (hash key \<open>66e94bd4...\<close>, ciphertext block \<open>0388dace...\<close>).
\<close>

lemma gcm_mul_test_vector:
  "gcm_mul 0x0388dace60b6a392f328c2b971b2fe78 0x66e94bd4ef8a2c3b884cfa59ca342b2e
   = 0x5e2ec746917062882c85b0685353deb7"
  by (simp add: gcm_mul_def gcm_mul_step_def upt_rec)

lemma length_counterCrypt: "length (counterCrypt enc inp c) = length inp"
proof (induction enc inp c rule: counterCrypt.induct)
  case (1 enc inp counter)
  show ?case
  proof (cases "gcmBlockSize \<le> length inp")
    case True
    with 1 show ?thesis
      by (subst counterCrypt.simps)
         (simp add: length_XORBytes length_bytes_of_block gcmBlockSize_def)
  next
    case False
    then show ?thesis
      by (subst counterCrypt.simps)
         (simp add: length_XORBytes length_bytes_of_block gcmBlockSize_def)
  qed
qed

lemma counterCrypt_twice: "counterCrypt enc (counterCrypt enc inp c) c = inp"
proof (induction enc inp c rule: counterCrypt.induct)
  case (1 enc inp counter)
  let ?mask = "bytes_of_block (enc counter)"
  show ?case
  proof (cases "gcmBlockSize \<le> length inp")
    case True
    let ?hd = "XORBytes (take gcmBlockSize inp) ?mask"
    let ?tl = "counterCrypt enc (drop gcmBlockSize inp) (gcmInc32 counter)"
    have out: "counterCrypt enc inp counter = ?hd @ ?tl"
      using True by (subst counterCrypt.simps) simp
    have lh: "length ?hd = gcmBlockSize"
      using True by (simp add: length_XORBytes length_bytes_of_block gcmBlockSize_def)
    have "counterCrypt enc (?hd @ ?tl) counter
          = XORBytes ?hd ?mask @ counterCrypt enc ?tl (gcmInc32 counter)"
      using lh by (subst counterCrypt.simps) simp
    also have "XORBytes ?hd ?mask = take gcmBlockSize inp"
      using True by (intro XORBytes_twice) (simp add: length_bytes_of_block gcmBlockSize_def)
    also have "counterCrypt enc ?tl (gcmInc32 counter) = drop gcmBlockSize inp"
      using True 1 by simp
    finally show ?thesis by (simp add: out)
  next
    case False
    show ?thesis
    proof (cases "inp = []")
      case True
      then show ?thesis by (simp add: counterCrypt.simps gcmBlockSize_def)
    next
      case ne: False
      have out: "counterCrypt enc inp counter = XORBytes inp ?mask"
        using False ne by (subst counterCrypt.simps) simp
      have l: "length (XORBytes inp ?mask) = length inp"
        using False by (simp add: length_XORBytes length_bytes_of_block gcmBlockSize_def)
      have "counterCrypt enc (XORBytes inp ?mask) counter = XORBytes (XORBytes inp ?mask) ?mask"
        using False ne l by (subst counterCrypt.simps) auto
      also have "\<dots> = inp"
        using False by (intro XORBytes_twice) (simp add: length_bytes_of_block gcmBlockSize_def)
      finally show ?thesis by (simp add: out)
    qed
  qed
qed

lemma length_auth: "length (auth enc ct ad tm) = 16"
  by (simp add: auth_def Let_def length_XORBytes length_bytes_of_block)

lemma length_sealed_body: "length (sealed_body enc nonce pt ad) = length pt + 16"
  by (simp add: sealed_body_def Let_def length_counterCrypt length_auth)

lemma Seal_eq_Inr:
  "Seal enc dst nonce pt ad = Inr sealed \<longleftrightarrow>
     length nonce = gcmStandardNonceSize \<and> length pt \<le> gcmMaxPlaintext \<and>
     sealed = dst @ sealed_body enc nonce pt ad"
  by (auto simp: Seal_def sealed_body_def Let_def)

lemma Open_sealed_body:
  assumes "length nonce = gcmStandardNonceSize" "length pt \<le> gcmMaxPlaintext"
  shows "Open enc [] nonce (sealed_body enc nonce pt ad) ad = Inr pt"
proof -
  let ?ct = "counterCrypt enc pt (gcmInc32 (deriveCounter nonce))"
  let ?tag = "auth enc ?ct ad (enc (deriveCounter nonce))"
  have b: "sealed_body enc nonce pt ad = ?ct @ ?tag"
    by (simp add: sealed_body_def Let_def)
  have l: "length (?ct @ ?tag) - gcmTagSize = length ?ct"
    by (simp add: length_auth gcmTagSize_def)
  have "\<not> length (?ct @ ?tag) < gcmTagSize"
    by (simp add: length_auth gcmTagSize_def)
  moreover have "\<not> gcmMaxPlaintext + gcmTagSize < length (?ct @ ?tag)"
    using assms(2) by (simp add: length_auth length_counterCrypt gcmTagSize_def)
  moreover have "take (length (?ct @ ?tag) - gcmTagSize) (?ct @ ?tag) = ?ct"
    by (simp only: l) simp
  moreover have "drop (length (?ct @ ?tag) - gcmTagSize) (?ct @ ?tag) = ?tag"
    by (simp only: l) simp
  ultimately show ?thesis
    unfolding b using assms(1)
    by (simp add: Open_def Let_def ConstantTimeCompare_iff counterCrypt_twice del: length_append)
qed

section \<open>Properties of the vault\<close>

lemma ReadFull_Inr: "ReadFull r n = (Inr bs, r') \<Longrightarrow> length bs = n \<and> r = bs @ r'"
  by (auto simp: ReadFull_def split: if_splits)

lemma ReadFull_enough: "n \<le> length r \<Longrightarrow> ReadFull r n = (Inr (take n r), drop n r)"
  by (auto simp: ReadFull_def)

lemma NewCipher_Inr: "NewCipher aes k = Inr blk \<Longrightarrow> blk = aes k"
  by (simp add: NewCipher_def split: if_splits)

lemma NewCipher_keyLen: "length k = keyLen \<Longrightarrow> NewCipher aes k = Inr (aes k)"
  by (simp add: NewCipher_def keyLen_def)

lemma Encrypt_Inr:
  assumes "Encrypt aes v pt rnd = (Inr blob, rnd')" "pt \<noteq> []"
  shows "\<exists>nonce. length nonce = NonceSize \<and> rnd = nonce @ rnd'
           \<and> NewCipher aes (key v) = Inr (aes (key v))
           \<and> length pt \<le> gcmMaxPlaintext
           \<and> blob = EncodeToString (nonce @ sealed_body (aes (key v)) nonce pt [])"
proof -
  from assms obtain blk where blk: "NewCipher aes (key v) = Inr blk"
    by (auto simp: Encrypt_def split: sum.splits)
  then have blk_eq: "blk = aes (key v)" by (rule NewCipher_Inr)
  from assms blk obtain nonce where rd: "ReadFull rnd NonceSize = (Inr nonce, rnd')"
    by (auto simp: Encrypt_def split: sum.splits prod.splits)
  from assms blk rd obtain sealed where
    sl: "Seal blk nonce nonce pt [] = Inr sealed" and b: "blob = EncodeToString sealed"
    by (auto simp: Encrypt_def split: sum.splits)
  from sl have "length pt \<le> gcmMaxPlaintext" "sealed = nonce @ sealed_body blk nonce pt []"
    by (simp_all add: Seal_eq_Inr)
  with ReadFull_Inr [OF rd] blk b show ?thesis
    by (auto simp: blk_eq)
qed

lemma Encrypt_succeeds:
  assumes "length (key v) = keyLen" "NonceSize \<le> length rnd" "length pt \<le> gcmMaxPlaintext" "pt \<noteq> []"
  shows "Encrypt aes v pt rnd =
           (Inr (EncodeToString (take NonceSize rnd @ sealed_body (aes (key v)) (take NonceSize rnd) pt [])),
            drop NonceSize rnd)"
proof -
  have "Seal (aes (key v)) (take NonceSize rnd) (take NonceSize rnd) pt []
        = Inr (take NonceSize rnd @ sealed_body (aes (key v)) (take NonceSize rnd) pt [])"
    using assms by (simp add: Seal_eq_Inr NonceSize_def)
  then show ?thesis
    using assms by (simp add: Encrypt_def NewCipher_keyLen ReadFull_enough)
qed

lemma Decrypt_sealed:
  assumes "length nonce = NonceSize" "NewCipher aes (key v) = Inr (aes (key v))"
    "length pt \<le> gcmMaxPlaintext"
  shows "Decrypt aes v (EncodeToString (nonce @ sealed_body (aes (key v)) nonce pt [])) = Inr pt"
proof -
  let ?data = "nonce @ sealed_body (aes (key v)) nonce pt []"
  have "nonce \<noteq> []"
    using assms(1) by (auto simp: NonceSize_def gcmStandardNonceSize_def)
  then have ne: "EncodeToString ?data \<noteq> []"
    by (simp add: EncodeToString_eq_Nil)
  have "Open (aes (key v)) [] nonce (sealed_body (aes (key v)) nonce pt []) [] = Inr pt"
    using assms by (intro Open_sealed_body) (simp_all add: NonceSize_def)
  then show ?thesis
    using ne assms(1,2)
    by (simp add: Decrypt_def DecodeString_EncodeToString Let_def)
qed



lemma decode_from_error: "decode_from dbuf s = Inl e \<Longrightarrow> e = CorruptInputError"
proof (induction dbuf s rule: decode_from.induct)
  case (1 dbuf)
  then show ?case by (simp split: if_splits)
next
  case (2 dbuf c cs)
  then show ?case
    by (auto split: if_splits sum.splits list.splits)
qed

lemma DecodeString_error: "DecodeString s = Inl e \<Longrightarrow> e = CorruptInputError"
  by (simp add: DecodeString_def decode_from_error)

lemma Open_short:
  assumes "length nonce = gcmStandardNonceSize" "length ct < gcmTagSize"
  shows "Open enc dst nonce ct ad = Inl errOpen"
  using assms by (simp add: Open_def)

lemma Open_cases:
  assumes "length nonce = gcmStandardNonceSize"
  shows "Open enc dst nonce ct ad = Inl errOpen \<or> (\<exists>pt. Open enc dst nonce ct ad = Inr pt)"
  using assms by (simp add: Open_def Let_def)

lemma Decrypt_cases:
  assumes "encoded \<noteq> []" "length (key v) = keyLen"
  shows "Decrypt aes v encoded =
     (case DecodeString encoded of
        Inl err \<Rightarrow> Inl CorruptInputError
      | Inr data \<Rightarrow>
          if length data < 12 then Inl errTooShort
          else (case Open (aes (key v)) [] (take 12 data) (drop 12 data) [] of
                  Inl err \<Rightarrow> Inl errDecryptionFailed
                | Inr plaintext \<Rightarrow> Inr plaintext))"
proof (cases "DecodeString encoded")
  case (Inl err)
  then show ?thesis
    using assms DecodeString_error [OF Inl] by (simp add: Decrypt_def)
next
  case (Inr data)
  show ?thesis
  proof (cases "length data < 12")
    case True
    then show ?thesis
      using assms Inr
      by (simp add: Decrypt_def NewCipher_keyLen NonceSize_def gcmStandardNonceSize_def)
  next
    case False
    then have n: "length (take 12 data) = gcmStandardNonceSize"
      by (simp add: gcmStandardNonceSize_def)
    from Open_cases [OF n, of "aes (key v)" "[]" "drop 12 data" "[]"]
    show ?thesis
      using assms Inr False
      by (auto simp: Decrypt_def NewCipher_keyLen NonceSize_def gcmStandardNonceSize_def
            Let_def errOpen_def)
  qed
qed


lemma Open_wrong_tag:
  assumes "length nonce = gcmStandardNonceSize" "length tag = gcmTagSize"
    "tag \<noteq> auth enc ct ad (enc (deriveCounter nonce))"
  shows "Open enc dst nonce (ct @ tag) ad = Inl errOpen"
  using assms by (simp add: Open_def Let_def ConstantTimeCompare_iff)

text \<open>
  A blob whose last sixteen bytes are not the tag of its nonce and ciphertext is
  rejected, whatever the block function is.
\<close>

lemma Decrypt_tampered_tag:
  assumes "length (key v) = keyLen" "length nonce = 12" "length tag = 16"
    "tag \<noteq> auth (aes (key v)) ct [] (aes (key v) (deriveCounter nonce))"
  shows "Decrypt aes v (EncodeToString (nonce @ ct @ tag)) = Inl errDecryptionFailed"
proof -
  have "nonce \<noteq> []" using assms(2) by auto
  then have ne: "EncodeToString (nonce @ ct @ tag) \<noteq> []"
    by (simp add: EncodeToString_eq_Nil)
  have "Open (aes (key v)) [] nonce (ct @ tag) [] = Inl errOpen"
    using assms by (intro Open_wrong_tag) (simp_all add: gcmStandardNonceSize_def gcmTagSize_def)
  then show ?thesis
    using assms(1,2)
    by (simp add: Decrypt_cases [OF ne assms(1)] DecodeString_EncodeToString)
qed

section \<open>A worked example\<close>

text \<open>
  \<^verbatim>\<open>Encrypt\<close> computed step by step on one input: the key is 32 bytes of 7, the
  random source delivers twelve bytes of 9, the block function is \<open>xor_cipher\<close> and
  the plaintext is ``db-secret-123''.
\<close>

lemma upt_16: "[0..<16] = [0, 1, 2, 3, 4, 5, 6, 7, 8, 9, 10, 11, 12, 13, 14, 15]"
  by (simp add: upt_rec)

lemma replicate_32: "replicate 32 x = [x,x,x,x,x,x,x,x,x,x,x,x,x,x,x,x,x,x,x,x,x,x,x,x,x,x,x,x,x,x,x,x]"
  by (simp add: numeral_eq_Suc)

lemma replicate_12: "replicate 12 x = [x,x,x,x,x,x,x,x,x,x,x,x]"
  by (simp add: numeral_eq_Suc)

lemma example_cipher: "xor_cipher (replicate 32 7) b = b XOR 0x07070707070707070707070707070707"
  by (simp add: xor_cipher_def replicate_32 block_of_bytes_def)

lemma example_counter: "deriveCounter (replicate 12 9) = 0x09090909090909090909090900000001"
  by (simp add: deriveCounter_def replicate_12 block_of_bytes_def)

lemma example_inc: "gcmInc32 0x09090909090909090909090900000001 = 0x09090909090909090909090900000002"
  by (simp add: gcmInc32_def)

lemma example_ct:
  "counterCrypt (xor_cipher (replicate 32 7)) (bytes_of ''db-secret-123'')
     0x09090909090909090909090900000002
   = [106, 108, 35, 125, 107, 109, 124, 107, 122, 35, 63, 60, 52]"
  by (subst counterCrypt.simps)
     (simp add: example_cipher bytes_of_def gcmBlockSize_def XORBytes_def bytes_of_block_def upt_16)

lemma example_block:
  "block_of_bytes ([106, 108, 35, 125, 107, 109, 124, 107, 122, 35, 63, 60, 52] @ replicate 3 0)
   = 0x6a6c237d6b6d7c6b7a233f3c34000000"
  by (simp add: block_of_bytes_def numeral_3_eq_3)


lemma example_mul1:
  "gcm_mul 0x6a6c237d6b6d7c6b7a233f3c34000000 0x07070707070707070707070707070707
   = 0xa4aa70ff15c586c08c989e5bc3dbebeb"
  by (simp add: gcm_mul_def gcm_mul_step_def upt_rec)

lemma example_mul2:
  "gcm_mul 0xa4aa70ff15c586c08c989e5bc3dbeb83 0x07070707070707070707070707070707
   = 0xdf0049ef270f5ee4c7bd0c1539da7421"
  by (simp add: gcm_mul_def gcm_mul_step_def upt_rec)

lemma example_update:
  "update 0x07070707070707070707070707070707 0
     [106, 108, 35, 125, 107, 109, 124, 107, 122, 35, 63, 60, 52]
   = 0xa4aa70ff15c586c08c989e5bc3dbebeb"
  by (subst update.simps) (simp add: example_block [simplified] example_mul1)

lemma example_tag:
  "auth (xor_cipher (replicate 32 7))
     [106, 108, 35, 125, 107, 109, 124, 107, 122, 35, 63, 60, 52] []
     (xor_cipher (replicate 32 7) 0x09090909090909090909090900000001)
   = [209, 14, 71, 225, 41, 1, 80, 234, 201, 179, 2, 27, 62, 221, 115, 39]"
proof -
  have u0: "update 0x07070707070707070707070707070707 0 [] = 0"
    by (subst update.simps) simp
  show ?thesis
    by (simp add: auth_def example_cipher u0 example_update example_mul2 XORBytes_def bytes_of_block_def upt_16)
qed

lemma example_sealed:
  "sealed_body (xor_cipher (replicate 32 7)) (replicate 12 9) (bytes_of ''db-secret-123'') []
   = [106, 108, 35, 125, 107, 109, 124, 107, 122, 35, 63, 60, 52,
      209, 14, 71, 225, 41, 1, 80, 234, 201, 179, 2, 27, 62, 221, 115, 39]"
  by (simp add: sealed_body_def example_counter example_inc example_ct example_tag)

lemma example_blob:
  "EncodeToString (replicate 12 9 @
      [106, 108, 35, 125, 107, 109, 124, 107, 122, 35, 63, 60, 52,
       209, 14, 71, 225, 41, 1, 80, 234, 201, 179, 2, 27, 62, 221, 115, 39])
   = bytes_of ''CQkJCQkJCQkJCQkJamwjfWttfGt6Iz88NNEOR+EpAVDqybMCGz7dcyc=''"
  by (simp add: replicate_12 bytes_of_def encodeStd_def enc6_def padChar_def)

lemma example_Encrypt:
  "Encrypt xor_cipher \<lparr>key = replicate 32 7\<rparr> (bytes_of ''db-secret-123'') (replicate 12 9)
   = (Inr (bytes_of ''CQkJCQkJCQkJCQkJamwjfWttfGt6Iz88NNEOR+EpAVDqybMCGz7dcyc=''), [])"
proof -
  let ?v = "\<lparr>key = replicate 32 (7::byte)\<rparr>"
  let ?s = "bytes_of ''db-secret-123''"
  have "?s \<noteq> []" by (simp add: bytes_of_def)
  moreover have "length (key ?v) = keyLen" by (simp add: keyLen_def)
  moreover have "NonceSize \<le> length (replicate 12 (9::byte))"
    by (simp add: NonceSize_def gcmStandardNonceSize_def)
  moreover have "length ?s \<le> gcmMaxPlaintext"
    by (simp add: bytes_of_def gcmMaxPlaintext_def gcmBlockSize_def)
  ultimately have "Encrypt xor_cipher ?v ?s (replicate 12 9)
      = (Inr (EncodeToString (take NonceSize (replicate 12 9)
                 @ sealed_body (xor_cipher (key ?v)) (take NonceSize (replicate 12 9)) ?s [])),
         drop NonceSize (replicate 12 9))"
    by (intro Encrypt_succeeds)
  then show ?thesis
    by (simp add: NonceSize_def gcmStandardNonceSize_def example_sealed example_blob)
qed

section \<open>The claims of the specification\<close>

text \<open>
  Claim C1 (round trip). For every non-empty plaintext \<open>s\<close> and every vault, whenever
  \<^verbatim>\<open>Encrypt\<close> succeeds on \<open>s\<close>, \<^verbatim>\<open>Decrypt\<close> of the blob it returned, on the same vault,
  returns \<open>s\<close> without error. This holds for whatever block function AES is and for
  every nonce the random source delivers; lemma \<open>Encrypt_succeeds\<close> shows that
  \<^verbatim>\<open>Encrypt\<close> does succeed for a 32-byte key when the random source delivers twelve
  bytes and the plaintext is within the size limit of GCM.
\<close>

theorem Decrypt_Encrypt_roundtrip:
  assumes "s \<noteq> []" "Encrypt aes v s rnd = (Inr blob, rnd')"
  shows "Decrypt aes v blob = Inr s"
proof -
  from Encrypt_Inr [OF assms(2,1)] obtain nonce where
    "length nonce = NonceSize" "NewCipher aes (key v) = Inr (aes (key v))"
    "length s \<le> gcmMaxPlaintext"
    "blob = EncodeToString (nonce @ sealed_body (aes (key v)) nonce s [])"
    by blast
  then show ?thesis by (simp add: Decrypt_sealed)
qed

theorem Decrypt_Encrypt_roundtrip_witness:
  "Encrypt xor_cipher \<lparr>key = replicate 32 7\<rparr> (bytes_of ''db-secret-123'') (replicate 12 9)
     = (Inr (bytes_of ''CQkJCQkJCQkJCQkJamwjfWttfGt6Iz88NNEOR+EpAVDqybMCGz7dcyc=''), [])
   \<and> Decrypt xor_cipher \<lparr>key = replicate 32 7\<rparr>
         (bytes_of ''CQkJCQkJCQkJCQkJamwjfWttfGt6Iz88NNEOR+EpAVDqybMCGz7dcyc='')
       = Inr (bytes_of ''db-secret-123'')"
proof -
  have ne: "bytes_of ''db-secret-123'' \<noteq> []" by (simp add: bytes_of_def)
  from Decrypt_Encrypt_roundtrip [OF ne example_Encrypt] example_Encrypt
  show ?thesis by simp
qed

text \<open>
  Claim C3 (verification). \<^verbatim>\<open>VerifyPassword\<close> accepts the hash that \<^verbatim>\<open>HashPassword\<close>
  made from the same password and salt, and rejects it for every other password
  whose derived key differs.
\<close>

theorem VerifyPassword_correct:
  "VerifyPassword idkey pw salt (HashPassword idkey pw salt) \<and>
   (idkey wrongPw salt argonTime argonMem argonParts keyLen
      \<noteq> idkey pw salt argonTime argonMem argonParts keyLen
    \<longrightarrow> \<not> VerifyPassword idkey wrongPw salt (HashPassword idkey pw salt))"
  by (simp add: VerifyPassword_def HashPassword_def Let_def DecodeString_EncodeToString
        ConstantTimeCompare_iff)

theorem VerifyPassword_correct_witness:
  "VerifyPassword pad_kdf (bytes_of ''correct horse'') (replicate 16 0)
     (HashPassword pad_kdf (bytes_of ''correct horse'') (replicate 16 0))
   \<and> \<not> VerifyPassword pad_kdf (bytes_of ''wrong horse'') (replicate 16 0)
         (HashPassword pad_kdf (bytes_of ''correct horse'') (replicate 16 0))"
proof -
  have "pad_kdf (bytes_of ''wrong horse'') (replicate 16 0) argonTime argonMem argonParts keyLen
        \<noteq> pad_kdf (bytes_of ''correct horse'') (replicate 16 0)
            argonTime argonMem argonParts keyLen"
    by (simp add: pad_kdf_def bytes_of_def keyLen_def)
  then show ?thesis
    using VerifyPassword_correct [of pad_kdf "bytes_of ''correct horse''" "replicate 16 0"
        "bytes_of ''wrong horse''"]
    by simp
qed

text \<open>
  Claim C4 (the hash is the key). Given that Argon2 returns the 32 bytes it is asked
  for, the key that \<^verbatim>\<open>NewVault\<close> stores has 32 bytes, \<^verbatim>\<open>HashPassword\<close> is the
  standard base64 encoding of exactly that key, and decoding the persisted hash
  gives the key back.
\<close>

theorem HashPassword_is_vault_key:
  assumes "length (idkey password salt argonTime argonMem argonParts keyLen) = keyLen"
  shows "length (key (NewVault idkey password salt)) = 32
         \<and> HashPassword idkey password salt = EncodeToString (key (NewVault idkey password salt))
         \<and> DecodeString (HashPassword idkey password salt) = Inr (key (NewVault idkey password salt))"
  using assms
  by (simp add: HashPassword_def NewVault_def Let_def DecodeString_EncodeToString keyLen_def)

theorem HashPassword_is_vault_key_witness:
  "length (key (NewVault pad_kdf (bytes_of ''correct horse'') (replicate 16 0))) = 32
   \<and> HashPassword pad_kdf (bytes_of ''correct horse'') (replicate 16 0)
      = EncodeToString (key (NewVault pad_kdf (bytes_of ''correct horse'') (replicate 16 0)))
   \<and> DecodeString (HashPassword pad_kdf (bytes_of ''correct horse'') (replicate 16 0))
      = Inr (bytes_of ''correct horse'' @ replicate 19 0)"
proof -
  have k: "pad_kdf (bytes_of ''correct horse'') (replicate 16 0)
             argonTime argonMem argonParts keyLen
           = bytes_of ''correct horse'' @ replicate 19 0"
    by (simp add: pad_kdf_def bytes_of_def keyLen_def replicate_add [symmetric])
  then have l: "length (pad_kdf (bytes_of ''correct horse'') (replicate 16 0)
                     argonTime argonMem argonParts keyLen) = keyLen"
    by (simp add: bytes_of_def keyLen_def)
  have nk: "key (NewVault pad_kdf (bytes_of ''correct horse'') (replicate 16 0))
            = bytes_of ''correct horse'' @ replicate 19 0"
    by (simp add: NewVault_def k)
  have "length (key (NewVault pad_kdf (bytes_of ''correct horse'') (replicate 16 0))) = 32
   \<and> HashPassword pad_kdf (bytes_of ''correct horse'') (replicate 16 0)
      = EncodeToString (key (NewVault pad_kdf (bytes_of ''correct horse'') (replicate 16 0)))
   \<and> DecodeString (HashPassword pad_kdf (bytes_of ''correct horse'') (replicate 16 0))
      = Inr (key (NewVault pad_kdf (bytes_of ''correct horse'') (replicate 16 0)))"
    using l by (rule HashPassword_is_vault_key)
  then show ?thesis unfolding nk .
qed

text \<open>
  Claim C5 (error kinds of \<^verbatim>\<open>Decrypt\<close>). For a non-empty input and a vault with a
  32-byte key, \<^verbatim>\<open>Decrypt\<close> fails with a malformed-blob error exactly when the input
  is not valid base64 or decodes to fewer than twelve bytes; it fails with the one
  decryption-failed error exactly when the input decodes to at least twelve bytes
  and \<^verbatim>\<open>Open\<close> reports that authentication failed; and it returns no other error.
\<close>

theorem Decrypt_error_kinds:
  assumes "encoded \<noteq> []" "length (key v) = keyLen"
  shows "((\<exists>e. Decrypt aes v encoded = Inl e \<and> MalformedBlob e) \<longleftrightarrow>
            (case DecodeString encoded of Inl err \<Rightarrow> True | Inr data \<Rightarrow> length data < 12))
       \<and> ((\<exists>e. Decrypt aes v encoded = Inl e \<and> DecryptionFailed e) \<longleftrightarrow>
            (\<exists>data. DecodeString encoded = Inr data \<and> 12 \<le> length data \<and>
               Open (aes (key v)) [] (take 12 data) (drop 12 data) [] = Inl errOpen))
       \<and> (\<forall>e. Decrypt aes v encoded = Inl e \<longrightarrow> MalformedBlob e \<or> DecryptionFailed e)"
proof -
  note d = Decrypt_cases [OF assms, of aes]
  have ne: "errDecryptionFailed \<noteq> CorruptInputError" "errDecryptionFailed \<noteq> errTooShort"
    "errTooShort \<noteq> errDecryptionFailed" "CorruptInputError \<noteq> errDecryptionFailed"
    by (simp_all add: errDecryptionFailed_def errTooShort_def)
  show ?thesis
  proof (cases "DecodeString encoded")
    case (Inl err)
    then show ?thesis
      using d by (simp add: MalformedBlob_def DecryptionFailed_def ne)
  next
    case (Inr data)
    show ?thesis
    proof (cases "length data < 12")
      case True
      then show ?thesis
        using d Inr by (simp add: MalformedBlob_def DecryptionFailed_def ne)
    next
      case False
      then have n: "length (take 12 data) = gcmStandardNonceSize"
        by (simp add: gcmStandardNonceSize_def)
      from Open_cases [OF n, of "aes (key v)" "[]" "drop 12 data" "[]"]
      show ?thesis
        using d Inr False
        by (auto simp: MalformedBlob_def DecryptionFailed_def ne errOpen_def)
    qed
  qed
qed

theorem Decrypt_error_kinds_witness:
  "DecodeString (bytes_of ''not-base64!!'') = Inl CorruptInputError
   \<and> (\<exists>e. Decrypt xor_cipher \<lparr>key = replicate 32 7\<rparr> (bytes_of ''not-base64!!'') = Inl e
          \<and> MalformedBlob e)"
proof -
  have ne: "bytes_of ''not-base64!!'' \<noteq> []" by (simp add: bytes_of_def)
  have k: "length (key \<lparr>key = replicate 32 (7::byte)\<rparr>) = keyLen" by (simp add: keyLen_def)
  have d: "DecodeString (bytes_of ''not-base64!!'') = Inl CorruptInputError"
    by (simp add: DecodeString_def bytes_of_def encodeStd_def decodeMap_def padChar_def
          is_newline_def)
  show ?thesis
    using Decrypt_error_kinds [OF ne k, of xor_cipher] by (simp add: d)
qed

text \<open>
  Claim C6 (empty strings). \<^verbatim>\<open>Encrypt\<close> of the empty string returns the empty string
  with no error, whatever the key and the block function are and without reading
  the random source; \<^verbatim>\<open>Decrypt\<close> of the empty string returns the empty string with no
  error. So an empty field goes through both unchanged.
\<close>

theorem Encrypt_Decrypt_empty:
  "Encrypt aes v [] rnd = (Inr [], rnd) \<and> Decrypt aes v [] = Inr []"
  by (simp add: Encrypt_def Decrypt_def)

text \<open>
  Claim C7 (undecodable stored hash). When the stored hash is not valid base64,
  \<^verbatim>\<open>VerifyPassword\<close> returns false.
\<close>

theorem VerifyPassword_undecodable_hash:
  assumes "DecodeString storedHash = Inl err"
  shows "VerifyPassword idkey password salt storedHash = False"
  using assms by (simp add: VerifyPassword_def Let_def)

theorem VerifyPassword_undecodable_hash_witness:
  "DecodeString (bytes_of ''a==='') = Inl CorruptInputError
   \<and> VerifyPassword pad_kdf (bytes_of ''correct horse'') (replicate 16 0) (bytes_of ''a==='')
       = False"
proof -
  have d: "DecodeString (bytes_of ''a==='') = Inl CorruptInputError"
    by (simp add: DecodeString_def bytes_of_def encodeStd_def decodeMap_def padChar_def
          is_newline_def)
  from VerifyPassword_undecodable_hash [OF d] d show ?thesis by simp
qed

text \<open>
  Claim C8 (unlocking). When the store is there, salt and hash are read and the salt
  decodes, \<^verbatim>\<open>UnlockVault\<close> is decided by \<^verbatim>\<open>VerifyPassword\<close> on them: on a match it
  returns true and keeps a vault made from the password and the stored salt, on a
  mismatch it returns false with no error and leaves the application as it was.
  Whenever the call changes the application at all, the reads succeeded and the
  password was verified, so a vault is constructed only on a match. The application
  is unlocked after the call exactly when it was unlocked before or the call
  returned true.
\<close>

theorem UnlockVault_only_on_match:
  "(store a = Some s \<and> GetConfig s ''master_salt'' = Inr saltB64
      \<and> DecodeString saltB64 = Inr salt \<and> GetConfig s ''master_hash'' = Inr hash
    \<longrightarrow> UnlockVault idkey a password =
          (if VerifyPassword idkey password salt hash
           then (Inr True, a\<lparr>vault := Some (NewVault idkey password salt)\<rparr>)
           else (Inr False, a)))
   \<and> (snd (UnlockVault idkey a password) \<noteq> a
    \<longrightarrow> (\<exists>s' saltB64' salt' hash'.
          store a = Some s' \<and> GetConfig s' ''master_salt'' = Inr saltB64'
          \<and> DecodeString saltB64' = Inr salt' \<and> GetConfig s' ''master_hash'' = Inr hash'
          \<and> VerifyPassword idkey password salt' hash'
          \<and> UnlockVault idkey a password
              = (Inr True, a\<lparr>vault := Some (NewVault idkey password salt')\<rparr>)))
   \<and> IsUnlocked (snd (UnlockVault idkey a password))
       = (IsUnlocked a \<or> fst (UnlockVault idkey a password) = Inr True)"
  by (auto simp: UnlockVault_def IsUnlocked_def split: option.splits sum.splits)


theorem UnlockVault_only_on_match_witness:
  "UnlockVault pad_kdf \<lparr>store = Some sample_store, vault = None\<rparr> (bytes_of ''wrong horse'')
     = (Inr False, \<lparr>store = Some sample_store, vault = None\<rparr>)
   \<and> \<not> IsUnlocked (snd (UnlockVault pad_kdf \<lparr>store = Some sample_store, vault = None\<rparr>
                          (bytes_of ''wrong horse'')))
   \<and> UnlockVault pad_kdf \<lparr>store = Some sample_store, vault = None\<rparr>
         (bytes_of ''correct horse'')
     = (Inr True,
        \<lparr>store = Some sample_store,
         vault = Some (NewVault pad_kdf (bytes_of ''correct horse'') (replicate 16 0))\<rparr>)"
proof -
  let ?a = "\<lparr>store = Some sample_store, vault = None\<rparr>"
  let ?salt = "replicate 16 (0::byte)"
  let ?hash = "HashPassword pad_kdf (bytes_of ''correct horse'') ?salt"
  have a: "store ?a = Some sample_store" by simp
  have s: "GetConfig sample_store ''master_salt'' = Inr (EncodeToString ?salt)"
    by (simp add: GetConfig_def sample_store_def)
  have h: "GetConfig sample_store ''master_hash'' = Inr ?hash"
    by (simp add: GetConfig_def sample_store_def)
  have d: "DecodeString (EncodeToString ?salt) = Inr ?salt"
    by (rule DecodeString_EncodeToString)
  have ne: "pad_kdf (bytes_of ''wrong horse'') ?salt argonTime argonMem argonParts keyLen
            \<noteq> pad_kdf (bytes_of ''correct horse'') ?salt argonTime argonMem argonParts keyLen"
    by (simp add: pad_kdf_def bytes_of_def keyLen_def)
  have wrong: "\<not> VerifyPassword pad_kdf (bytes_of ''wrong horse'') ?salt ?hash"
    using ne
    by (simp add: VerifyPassword_def HashPassword_def Let_def DecodeString_EncodeToString
          ConstantTimeCompare_iff)
  have right: "VerifyPassword pad_kdf (bytes_of ''correct horse'') ?salt ?hash"
    by (simp add: VerifyPassword_def HashPassword_def Let_def DecodeString_EncodeToString
          ConstantTimeCompare_iff)
  have l: "\<not> IsUnlocked ?a" by (simp add: IsUnlocked_def)
  have reads: "store ?a = Some sample_store
      \<and> GetConfig sample_store ''master_salt'' = Inr (EncodeToString ?salt)
      \<and> DecodeString (EncodeToString ?salt) = Inr ?salt
      \<and> GetConfig sample_store ''master_hash'' = Inr ?hash"
    by (intro conjI a s d h)
  have "UnlockVault pad_kdf ?a (bytes_of ''wrong horse'') =
          (if VerifyPassword pad_kdf (bytes_of ''wrong horse'') ?salt ?hash
           then (Inr True, ?a\<lparr>vault := Some (NewVault pad_kdf (bytes_of ''wrong horse'') ?salt)\<rparr>)
           else (Inr False, ?a))"
    using reads
    by (rule UnlockVault_only_on_match
          [of ?a sample_store "EncodeToString ?salt" ?salt ?hash pad_kdf
              "bytes_of ''wrong horse''", THEN conjunct1, THEN mp])
  then have w: "UnlockVault pad_kdf ?a (bytes_of ''wrong horse'') = (Inr False, ?a)"
    by (simp only: wrong if_False)
  have "UnlockVault pad_kdf ?a (bytes_of ''correct horse'') =
          (if VerifyPassword pad_kdf (bytes_of ''correct horse'') ?salt ?hash
           then (Inr True, ?a\<lparr>vault := Some (NewVault pad_kdf (bytes_of ''correct horse'') ?salt)\<rparr>)
           else (Inr False, ?a))"
    using reads
    by (rule UnlockVault_only_on_match
          [of ?a sample_store "EncodeToString ?salt" ?salt ?hash pad_kdf
              "bytes_of ''correct horse''", THEN conjunct1, THEN mp])
  then have r: "UnlockVault pad_kdf ?a (bytes_of ''correct horse'')
           = (Inr True, ?a\<lparr>vault := Some (NewVault pad_kdf (bytes_of ''correct horse'') ?salt)\<rparr>)"
    by (simp only: right if_True)
  have u: "?a\<lparr>vault := Some (NewVault pad_kdf (bytes_of ''correct horse'') ?salt)\<rparr>
           = \<lparr>store = Some sample_store,
              vault = Some (NewVault pad_kdf (bytes_of ''correct horse'') ?salt)\<rparr>"
    by simp
  have l': "\<not> IsUnlocked (snd (UnlockVault pad_kdf ?a (bytes_of ''wrong horse'')))"
    unfolding w snd_conv by (rule l)
  show ?thesis
    using w l' r unfolding u by (intro conjI)
qed

text \<open>
  Claim C9 (nonce without a complete tag). For a vault with a 32-byte key, an input
  that decodes to at least 12 but fewer than 28 bytes makes \<^verbatim>\<open>Decrypt\<close> fail with the
  decryption-failed error, which is not a malformed-blob error: the length is only
  checked against the nonce size.
\<close>

theorem Decrypt_short_tag_fails:
  assumes "length (key v) = keyLen" "DecodeString encoded = Inr data"
    "12 \<le> length data" "length data < 28"
  shows "Decrypt aes v encoded = Inl errDecryptionFailed
         \<and> DecryptionFailed errDecryptionFailed \<and> \<not> MalformedBlob errDecryptionFailed"
proof -
  have "encoded \<noteq> []"
    using assms(2,3) by (auto simp: DecodeString_def)
  moreover have "Open (aes (key v)) [] (take NonceSize data) (drop NonceSize data) [] = Inl errOpen"
    using assms(3,4)
    by (intro Open_short) (simp_all add: NonceSize_def gcmStandardNonceSize_def gcmTagSize_def)
  ultimately have "Decrypt aes v encoded = Inl errDecryptionFailed"
    using assms
    by (simp add: Decrypt_def NewCipher_keyLen Let_def errOpen_def NonceSize_def
          gcmStandardNonceSize_def)
  then show ?thesis
    by (simp add: DecryptionFailed_def MalformedBlob_def errDecryptionFailed_def errTooShort_def)
qed

theorem Decrypt_short_tag_fails_witness:
  "DecodeString (bytes_of ''c2hvcnQgYnV0IHZhbGlk'')
     = Inr (bytes_of ''short but valid'')
   \<and> Decrypt xor_cipher \<lparr>key = replicate 32 7\<rparr> (bytes_of ''c2hvcnQgYnV0IHZhbGlk'')
       = Inl errDecryptionFailed"
proof -
  have k: "length (key \<lparr>key = replicate 32 (7::byte)\<rparr>) = keyLen" by (simp add: keyLen_def)
  have d: "DecodeString (bytes_of ''c2hvcnQgYnV0IHZhbGlk'')
             = Inr (bytes_of ''short but valid'')"
    by (simp add: DecodeString_def bytes_of_def encodeStd_def decodeMap_def assemble_def
          padChar_def is_newline_def)
  have "12 \<le> length (bytes_of ''short but valid'')"
       "length (bytes_of ''short but valid'') < 28"
    by (simp_all add: bytes_of_def)
  from Decrypt_short_tag_fails [OF k d this] d show ?thesis by simp
qed

text \<open>
  Claim C10 (length of the blob). For a non-empty plaintext, the blob of a successful
  \<^verbatim>\<open>Encrypt\<close> decodes to a 12-byte nonce, a ciphertext as long as the plaintext and a
  16-byte tag: the length of the plaintext plus 28 bytes.
\<close>

theorem Encrypt_blob_length:
  assumes "plaintext \<noteq> []" "Encrypt aes v plaintext rnd = (Inr blob, rnd')"
  shows "\<exists>nonce ct tag. DecodeString blob = Inr (nonce @ ct @ tag)
           \<and> length nonce = 12 \<and> length ct = length plaintext \<and> length tag = 16
           \<and> length (nonce @ ct @ tag) = length plaintext + 28"
proof -
  from Encrypt_Inr [OF assms(2,1)] obtain nonce where
    n: "length nonce = NonceSize"
    and b: "blob = EncodeToString (nonce @ sealed_body (aes (key v)) nonce plaintext [])"
    by blast
  let ?ct = "counterCrypt (aes (key v)) plaintext (gcmInc32 (deriveCounter nonce))"
  let ?tag = "auth (aes (key v)) ?ct [] (aes (key v) (deriveCounter nonce))"
  have "DecodeString blob = Inr (nonce @ ?ct @ ?tag)"
    by (simp add: b DecodeString_EncodeToString sealed_body_def Let_def)
  moreover have "length nonce = 12"
    using n by (simp add: NonceSize_def gcmStandardNonceSize_def)
  moreover have "length ?ct = length plaintext" by (rule length_counterCrypt)
  moreover have "length ?tag = 16" by (rule length_auth)
  ultimately show ?thesis by (intro exI [of _ nonce] exI [of _ ?ct] exI [of _ ?tag]) simp
qed

theorem Encrypt_blob_length_witness:
  "Encrypt xor_cipher \<lparr>key = replicate 32 7\<rparr> (bytes_of ''db-secret-123'') (replicate 12 9)
     = (Inr (bytes_of ''CQkJCQkJCQkJCQkJamwjfWttfGt6Iz88NNEOR+EpAVDqybMCGz7dcyc=''), [])
   \<and> (\<exists>data. DecodeString (bytes_of ''CQkJCQkJCQkJCQkJamwjfWttfGt6Iz88NNEOR+EpAVDqybMCGz7dcyc='')
                 = Inr data \<and> length data = 41)"
proof -
  have ne: "bytes_of ''db-secret-123'' \<noteq> []" by (simp add: bytes_of_def)
  from Encrypt_blob_length [OF ne example_Encrypt] obtain data where
    "DecodeString (bytes_of ''CQkJCQkJCQkJCQkJamwjfWttfGt6Iz88NNEOR+EpAVDqybMCGz7dcyc='')
       = Inr data"
    "length data = length (bytes_of ''db-secret-123'') + 28"
    by auto
  then show ?thesis using example_Encrypt by (auto simp: bytes_of_def)
qed

end
